theory Spec2Isabelle
  imports Complex_Main
begin

section \<open>Strings and the regular-expression primitives used by the source\<close>

text \<open>
  A JavaScript string is a sequence of code units. The model uses \<^typ>\<open>string\<close>, whose
  characters are the code units below 256 (ASCII and Latin-1). On that range the class
  \<^verbatim>\<open>\s\<close> of a regular expression and the characters removed by \<^verbatim>\<open>trim()\<close> are the same
  seven: tab, line feed, vertical tab, form feed, carriage return, space and the
  no-break space.
\<close>

abbreviation LF :: char where "LF \<equiv> CHR 0x0A"
abbreviation CR :: char where "CR \<equiv> CHR 0x0D"
abbreviation SP :: char where "SP \<equiv> CHR 0x20"

definition isSpace :: "char \<Rightarrow> bool" where
  "isSpace c = (c \<in> set [CHR 0x09, CHR 0x0A, CHR 0x0B, CHR 0x0C, CHR 0x0D, CHR 0x20, CHR 0xA0])"

text \<open>\<^verbatim>\<open>s.trim()\<close>\<close>

definition trim :: "string \<Rightarrow> string" where
  "trim s = rev (dropWhile isSpace (rev (dropWhile isSpace s)))"

text \<open>\<^verbatim>\<open>t.replace(/\r\n/g, '\n')\<close>: a global replace scans left to right and resumes after
  each match.\<close>

fun replace_crlf :: "string \<Rightarrow> string" where
  "replace_crlf (c # d # cs) =
     (if c = CR \<and> d = LF then LF # replace_crlf cs else c # replace_crlf (d # cs))"
| "replace_crlf cs = cs"

text \<open>\<^verbatim>\<open>t.replace(/\r/g, '\n')\<close>\<close>

definition replace_cr :: "string \<Rightarrow> string" where
  "replace_cr s = map (\<lambda>c. if c = CR then LF else c) s"

text \<open>\<^verbatim>\<open>t.replace(/-\n\s*/g, '')\<close>: the star is greedy, so a match takes the whole run of
  white space that follows the line feed.\<close>

function remove_hyphen_breaks :: "string \<Rightarrow> string" where
  "remove_hyphen_breaks (c # d # cs) =
     (if c = CHR ''-'' \<and> d = LF then remove_hyphen_breaks (dropWhile isSpace cs)
      else c # remove_hyphen_breaks (d # cs))"
| "remove_hyphen_breaks [c] = [c]"
| "remove_hyphen_breaks [] = []"
  by pat_completeness auto
termination
  by (relation "measure length") (auto intro: le_imp_less_Suc length_dropWhile_le le_SucI)

text \<open>\<^verbatim>\<open>t.replace(/\n{2,}/g, '\n\n')\<close>\<close>

function collapse_paragraph_breaks :: "string \<Rightarrow> string" where
  "collapse_paragraph_breaks (c # d # cs) =
     (if c = LF \<and> d = LF then LF # LF # collapse_paragraph_breaks (dropWhile (\<lambda>x. x = LF) cs)
      else c # collapse_paragraph_breaks (d # cs))"
| "collapse_paragraph_breaks [c] = [c]"
| "collapse_paragraph_breaks [] = []"
  by pat_completeness auto
termination
  by (relation "measure length") (auto intro: le_imp_less_Suc length_dropWhile_le le_SucI)

text \<open>\<^verbatim>\<open>t.replace(/\n/g, ' ')\<close>\<close>

definition newlines_to_spaces :: "string \<Rightarrow> string" where
  "newlines_to_spaces s = map (\<lambda>c. if c = LF then SP else c) s"

text \<open>\<^verbatim>\<open>t.replace(/\s+/g, ' ')\<close>\<close>

function collapse_whitespace :: "string \<Rightarrow> string" where
  "collapse_whitespace (c # cs) =
     (if isSpace c then SP # collapse_whitespace (dropWhile isSpace cs)
      else c # collapse_whitespace cs)"
| "collapse_whitespace [] = []"
  by pat_completeness auto
termination
  by (relation "measure length") (auto intro: le_imp_less_Suc length_dropWhile_le)

section \<open>The normalizer\<close>

text \<open>
  \<^verbatim>\<open>
  export function normalizeTextForExtraction(text: string) {
    if (!text) return '';
    let t = String(text || '');
    t = t.replace(/\r\n/g, '\n').replace(/\r/g, '\n');
    t = t.replace(/-\n\s*/g, '');
    t = t.replace(/\n{2,}/g, '\n\n').replace(/\n/g, ' ');
    t = t.replace(/\s+/g, ' ').trim();
    return t;
  }
  \<close>
\<close>

definition normalizeTextForExtraction :: "string \<Rightarrow> string" where
  "normalizeTextForExtraction text =
     (if text = [] then []
      else let t = replace_cr (replace_crlf text);
               t = remove_hyphen_breaks t;
               t = newlines_to_spaces (collapse_paragraph_breaks t);
               t = trim (collapse_whitespace t)
           in t)"

text \<open>The shape of a normalized text: every white-space character is a single space
  with no white space after it.\<close>

fun single_spaced :: "string \<Rightarrow> bool" where
  "single_spaced (c # d # cs) =
     ((isSpace c \<longrightarrow> c = SP \<and> \<not> isSpace d) \<and> single_spaced (d # cs))"
| "single_spaced [c] = (isSpace c \<longrightarrow> c = SP)"
| "single_spaced [] = True"

section \<open>The sentence splitter\<close>

text \<open>
  \<^verbatim>\<open>
  export function splitIntoSentences(text: string) {
    if (!text) return [];
    const re = /[^.!?]+[.!?]+(?:\s|$)|[^.!?]+$/g;
    const matches = text.match(re) || [];
    return matches.map(s => s.trim()).filter(Boolean);
  }
  \<close>
  \<open>sentence_match_at t\<close> is the length of the match of the expression at the start of
  \<open>t\<close>, if there is one. Both classes are matched greedily, and giving characters back
  never helps: after a shorter run of \<^verbatim>\<open>[^.!?]\<close> comes a character that is not a mark, and
  after a shorter run of marks comes a mark, which is neither white space nor the end.
  The second alternative needs the run of non-marks to reach the end of the text.
\<close>

definition isTerminal :: "char \<Rightarrow> bool" where
  "isTerminal c = (c \<in> set [CHR ''.'', CHR ''!'', CHR ''?''])"

definition sentence_match_at :: "string \<Rightarrow> nat option" where
  "sentence_match_at t =
     (let body = takeWhile (\<lambda>c. \<not> isTerminal c) t;
          r1 = dropWhile (\<lambda>c. \<not> isTerminal c) t;
          marks = takeWhile isTerminal r1;
          r2 = dropWhile isTerminal r1
      in if body = [] then None
         else if marks \<noteq> [] \<and> r2 \<noteq> [] \<and> isSpace (hd r2)
           then Some (length body + length marks + 1)
         else if marks \<noteq> [] \<and> r2 = [] then Some (length body + length marks)
         else if r1 = [] then Some (length body)
         else None)"

lemma sentence_match_at_pos: "sentence_match_at t = Some n \<Longrightarrow> 0 < n"
proof -
  assume a: "sentence_match_at t = Some n"
  define body where "body = takeWhile (\<lambda>c. \<not> isTerminal c) t"
  define r1 where "r1 = dropWhile (\<lambda>c. \<not> isTerminal c) t"
  define marks where "marks = takeWhile isTerminal r1"
  define r2 where "r2 = dropWhile isTerminal r1"
  have "sentence_match_at t =
     (if body = [] then None
      else if marks \<noteq> [] \<and> r2 \<noteq> [] \<and> isSpace (hd r2)
        then Some (length body + length marks + 1)
      else if marks \<noteq> [] \<and> r2 = [] then Some (length body + length marks)
      else if r1 = [] then Some (length body)
      else None)"
    unfolding sentence_match_at_def Let_def body_def r1_def marks_def r2_def ..
  with a show "0 < n"
    by (cases body) (auto split: if_splits)
qed

text \<open>\<^verbatim>\<open>text.match(re)\<close> with the flag \<^verbatim>\<open>g\<close>: all matches from left to right; where the
  expression does not match, the scan moves on by one character.\<close>

function sentence_matches :: "string \<Rightarrow> string list" where
  "sentence_matches [] = []"
| "sentence_matches (c # cs) =
     (case sentence_match_at (c # cs) of
        Some n \<Rightarrow> take n (c # cs) # sentence_matches (drop n (c # cs))
      | None \<Rightarrow> sentence_matches cs)"
  by pat_completeness auto
termination
proof (relation "measure length")
  show "wf (measure length)" by simp
next
  fix c :: char and cs n assume "sentence_match_at (c # cs) = Some n"
  then have "0 < n" by (rule sentence_match_at_pos)
  then show "(drop n (c # cs), c # cs) \<in> measure length" by simp
next
  fix c :: char and cs show "(cs, c # cs) \<in> measure length" by simp
qed

definition splitIntoSentences :: "string \<Rightarrow> string list" where
  "splitIntoSentences text =
     (if text = [] then []
      else filter (\<lambda>s. s \<noteq> []) (map trim (sentence_matches text)))"

section \<open>The semantic chunker\<close>

record chunk =
  chunk_id :: string
  chunk_text :: string
  startSentence :: int
  endSentence :: int
  startChar :: int
  endChar :: int

text \<open>\<^verbatim>\<open>parts.join(sep)\<close>\<close>

fun join :: "string \<Rightarrow> string list \<Rightarrow> string" where
  "join sep [] = []"
| "join sep [x] = x"
| "join sep (x # y # ys) = x @ sep @ join sep (y # ys)"

text \<open>The value of \<^verbatim>\<open>len\<close> after the sentences \<open>parts\<close> were added.\<close>

definition weight :: "string list \<Rightarrow> int" where
  "weight parts = (\<Sum>s\<leftarrow>parts. int (length s) + 1)"

text \<open>Decimal rendering of a number inside a template literal.\<close>

function show_nat :: "nat \<Rightarrow> string" where
  "show_nat n =
     (if n < 10 then [''0123456789'' ! n]
      else show_nat (n div 10) @ [''0123456789'' ! (n mod 10)])"
  by pat_completeness auto
termination
  by (relation "measure id") auto

declare show_nat.simps [simp del]

definition show_int :: "int \<Rightarrow> string" where
  "show_int i = (if i < 0 then CHR ''-'' # show_nat (nat (- i)) else show_nat (nat i))"

text \<open>
  The inner loop that fills one chunk:
  \<^verbatim>\<open>
  while (idx < sentences.length && (len < chunkChars || parts.length === 0)) {
    const s = sentences[idx];
    parts.push(s);
    len += s.length + 1;
    idx++;
  }
  \<close>
\<close>

function gather :: "string list \<Rightarrow> int \<Rightarrow> nat \<Rightarrow> int \<Rightarrow> string list \<Rightarrow> nat \<times> string list" where
  "gather sentences chunkChars idx len parts =
     (if idx < length sentences \<and> (len < chunkChars \<or> parts = [])
      then gather sentences chunkChars (Suc idx)
             (len + int (length (sentences ! idx)) + 1) (parts @ [sentences ! idx])
      else (idx, parts))"
  by pat_completeness auto
termination
  by (relation "measure (\<lambda>(sentences, chunkChars, idx, len, parts). length sentences - idx)") auto

declare gather.simps [simp del]

text \<open>
  The backward walk over the sentences of the chunk just built:
  \<^verbatim>\<open>
  while (j > startIdx && back < overlapChars) {
    back += sentences[j].length + 1;
    j--;
  }
  \<close>
\<close>

function backtrack :: "string list \<Rightarrow> int \<Rightarrow> nat \<Rightarrow> int \<Rightarrow> nat \<Rightarrow> nat" where
  "backtrack sentences overlapChars startIdx back j =
     (if j > startIdx \<and> back < overlapChars
      then backtrack sentences overlapChars startIdx
             (back + int (length (sentences ! j)) + 1) (j - 1)
      else j)"
  by pat_completeness auto
termination
  by (relation "measure (\<lambda>(sentences, overlapChars, startIdx, back, j). j)") auto

declare backtrack.simps [simp del]

text \<open>
  One pass through the body of the outer loop, from the state \<open>(idx, charPos, chunks)\<close>
  to the next one:
  \<^verbatim>\<open>
  let len = 0;
  let startIdx = idx;
  const startChar = charPos;
  const parts: string[] = [];
  while (...) { ... }
  const chunkText = parts.join(' ');
  const endChar = startChar + chunkText.length;
  chunks.push({ id: `${startChar}-${endChar}`, text: chunkText, startSentence: startIdx,
                endSentence: idx - 1, startChar, endChar });
  if (idx < sentences.length) {
    let back = 0;
    let j = idx - 1;
    while (...) { ... }
    const newIdx = Math.max(startIdx, j + 1);
    charPos = chunks[chunks.length - 1].startChar + Math.max(0, chunkText.length - overlapChars);
    idx = newIdx;
  } else {
    idx = sentences.length;
    charPos = endChar;
  }
  \<close>
  The parameters \<open>chunkChars\<close> and \<open>overlapChars\<close> are integers in the model.
\<close>

definition chunk_body ::
  "string list \<Rightarrow> int \<Rightarrow> int \<Rightarrow> nat \<Rightarrow> int \<Rightarrow> chunk list \<Rightarrow> nat \<times> int \<times> chunk list" where
  "chunk_body sentences chunkChars overlapChars idx charPos chunks =
     (let startIdx = idx;
          startChar = charPos;
          (idx, parts) = gather sentences chunkChars idx 0 [];
          chunkText = join '' '' parts;
          endChar = startChar + int (length chunkText);
          chunks = chunks @
            [\<lparr>chunk_id = show_int startChar @ ''-'' @ show_int endChar,
              chunk_text = chunkText,
              startSentence = int startIdx, endSentence = int idx - 1,
              startChar = startChar, endChar = endChar\<rparr>]
      in if idx < length sentences
         then let j = backtrack sentences overlapChars startIdx 0 (idx - 1);
                  newIdx = max startIdx (j + 1);
                  charPos = chunk.startChar (last chunks)
                            + max 0 (int (length chunkText) - overlapChars)
              in (newIdx, charPos, chunks)
         else (length sentences, endChar, chunks))"

text \<open>The outer loop \<^verbatim>\<open>while (idx < sentences.length) { ... }\<close>. Nothing in its header
  bounds the number of passes, so the model returns an option: \<open>None\<close> stands for a loop
  that never ends.\<close>

partial_function (option) chunk_loop ::
  "string list \<Rightarrow> int \<Rightarrow> int \<Rightarrow> nat \<Rightarrow> int \<Rightarrow> chunk list \<Rightarrow> chunk list option" where
  "chunk_loop sentences chunkChars overlapChars idx charPos chunks =
     (if idx < length sentences
      then (case chunk_body sentences chunkChars overlapChars idx charPos chunks of
              (idx', charPos', chunks') \<Rightarrow>
                chunk_loop sentences chunkChars overlapChars idx' charPos' chunks')
      else Some chunks)"

declare chunk_loop.simps [code]

text \<open>
  \<^verbatim>\<open>
  export function chunkIntoSemanticChunks(text: string, chunkChars = 3000, overlapChars = 500) {
    const normalized = normalizeTextForExtraction(text || '');
    if (!normalized) return [];
    const sentences = splitIntoSentences(normalized);
    const chunks = [];
    let idx = 0;
    let charPos = 0;
    while (idx < sentences.length) { ... }
    return chunks;
  }
  \<close>
\<close>

definition chunkIntoSemanticChunks :: "string \<Rightarrow> int \<Rightarrow> int \<Rightarrow> chunk list option" where
  "chunkIntoSemanticChunks text chunkChars overlapChars =
     (let normalized = normalizeTextForExtraction text
      in if normalized = [] then Some []
         else chunk_loop (splitIntoSentences normalized) chunkChars overlapChars 0 0 [])"

section \<open>The header and footer filter\<close>

text \<open>\<^verbatim>\<open>s.split(sep)\<close> for a separator of one character: the pieces between the
  separators, empty pieces included; the empty string gives one empty piece.\<close>

function split_on :: "char \<Rightarrow> string \<Rightarrow> string list" where
  "split_on sep s =
     (case dropWhile (\<lambda>c. c \<noteq> sep) s of
        [] \<Rightarrow> [takeWhile (\<lambda>c. c \<noteq> sep) s]
      | _ # rest \<Rightarrow> takeWhile (\<lambda>c. c \<noteq> sep) s # split_on sep rest)"
  by pat_completeness auto
termination
proof (relation "measure (\<lambda>(sep, s). length s)")
  show "wf (measure (\<lambda>(sep, s). length s))" by simp
next
  fix sep :: char and s x rest
  assume "dropWhile (\<lambda>c. c \<noteq> sep) s = x # rest"
  then have "length (x # rest) \<le> length s"
    by (metis length_dropWhile_le)
  then show "((sep, rest), (sep, s)) \<in> measure (\<lambda>(sep, s). length s)" by simp
qed

declare split_on.simps [simp del]

text \<open>Insertion order of a \<^verbatim>\<open>Set\<close> built from an array (and of the own keys of an object
  filled from it): each element once, at its first occurrence.\<close>

definition dedupe :: "'a list \<Rightarrow> 'a list" where
  "dedupe xs = rev (remdups (rev xs))"

text \<open>
  The tables \<^verbatim>\<open>freq\<close>, \<^verbatim>\<open>fa\<close> and \<^verbatim>\<open>fb\<close> of the source are plain objects created with
  \<^verbatim>\<open>{}\<close>, so a key that names a property of \<^verbatim>\<open>Object.prototype\<close> does not start at
  \<^verbatim>\<open>undefined\<close>. For the function-valued properties below, \<^verbatim>\<open>(t[k] || 0) + 1\<close> is the
  concatenation of the function's text and \<^verbatim>\<open>"1"\<close>: the entry becomes a string that is
  not a number. An assignment of such a string to \<^verbatim>\<open>__proto__\<close> is ignored, and the key
  never becomes an own key.
\<close>

definition prototype_functions :: "string list" where
  "prototype_functions =
     [''constructor'', ''__defineGetter__'', ''__defineSetter__'', ''hasOwnProperty'',
      ''__lookupGetter__'', ''__lookupSetter__'', ''isPrototypeOf'',
      ''propertyIsEnumerable'', ''toString'', ''valueOf'', ''toLocaleString'']"

text \<open>
  \<^verbatim>\<open>
  const firstLines = pages.map(p => (p || '').split('\n').map(l => l.trim()).filter(Boolean)[0] || '');
  const lastLines = pages.map(p => (p || '').split('\n').map(l => l.trim()).filter(Boolean).slice(-1)[0] || '');
  \<close>
\<close>

definition firstLines :: "string list \<Rightarrow> string list" where
  "firstLines pages =
     map (\<lambda>p. case filter (\<lambda>l. l \<noteq> []) (map trim (split_on LF p)) of
                [] \<Rightarrow> [] | l # _ \<Rightarrow> l) pages"

definition lastLines :: "string list \<Rightarrow> string list" where
  "lastLines pages =
     map (\<lambda>p. let ls = filter (\<lambda>l. l \<noteq> []) (map trim (split_on LF p))
              in if ls = [] then [] else last ls) pages"

text \<open>
  \<^verbatim>\<open>
  const freq: Record<string, number> = {};
  [...firstLines, ...lastLines].forEach(l => { if (l) freq[l] = (freq[l] || 0) + 1; });
  const repeats = new Set(Object.entries(freq).filter(([, c]) => c > 1).map(([k]) => k));
  \<close>
  The entry of an ordinary key is the number of its occurrences. The entry of a key in
  \<^const>\<open>prototype_functions\<close> is a string, for which \<^verbatim>\<open>c > 1\<close> is false.
\<close>

definition repeats :: "string list \<Rightarrow> string list" where
  "repeats pages =
     (let pool = filter (\<lambda>l. l \<noteq> []) (firstLines pages @ lastLines pages);
          keys = filter (\<lambda>k. k \<noteq> ''__proto__'') (dedupe pool)
      in filter (\<lambda>k. k \<notin> set prototype_functions \<and> 1 < count_list pool k) keys)"

text \<open>
  \<^verbatim>\<open>
  export function removeHeadersFootersFromPages(pages: string[]) {
    if (!pages || pages.length <= 1) return pages;
    ...
    return pages.map(p => {
      if (!p) return p;
      const lines = p.split('\n').map(l => l.trim());
      const filtered = lines.filter(l => !repeats.has(l));
      return filtered.join('\n');
    });
  }
  \<close>
\<close>

definition removeHeadersFootersFromPages :: "string list \<Rightarrow> string list" where
  "removeHeadersFootersFromPages pages =
     (if length pages \<le> 1 then pages
      else map (\<lambda>p. if p = [] then p
                     else let lines = map trim (split_on LF p);
                              filtered = filter (\<lambda>l. l \<notin> set (repeats pages)) lines
                          in join [LF] filtered) pages)"

section \<open>The similarity engine\<close>

text \<open>\<^verbatim>\<open>s.toLowerCase()\<close> on the code units below 256: the ASCII capitals and the
  Latin-1 capitals (all of 192 to 222 but the multiplication sign) move up by 32.\<close>

definition toLowerChar :: "char \<Rightarrow> char" where
  "toLowerChar c =
     (let n = (of_char c :: nat)
      in if (65 \<le> n \<and> n \<le> 90) \<or> (192 \<le> n \<and> n \<le> 214) \<or> (216 \<le> n \<and> n \<le> 222)
         then char_of (n + 32) else c)"

definition toLowerCase :: "string \<Rightarrow> string" where
  "toLowerCase s = map toLowerChar s"

text \<open>The class \<^verbatim>\<open>[a-z0-9\s]\<close>.\<close>

definition isLowerAlnumOrSpace :: "char \<Rightarrow> bool" where
  "isLowerAlnumOrSpace c =
     (let n = (of_char c :: nat)
      in (97 \<le> n \<and> n \<le> 122) \<or> (48 \<le> n \<and> n \<le> 57) \<or> isSpace c)"

text \<open>
  \<^verbatim>\<open>
  function normalizeText(s: string) {
    return String(s || '').toLowerCase().replace(/[^a-z0-9\s]/g, ' ').replace(/\s+/g, ' ').trim();
  }
  function tokens(s: string) {
    const stop = new Set(['the','is','in','and','of','a','to','for','with','on','by','an','be',
                          'that','this','it','as','are']);
    return normalizeText(s).split(' ').filter(Boolean).filter((t) => !stop.has(t));
  }
  \<close>
  The two files \<^verbatim>\<open>page.tsx\<close> and \<^verbatim>\<open>route.ts\<close> carry the same text of these helpers and of
  \<^verbatim>\<open>jaccard\<close>, \<^verbatim>\<open>cosineSim\<close> and \<^verbatim>\<open>semanticSimilarity\<close>.
\<close>

definition normalizeText :: "string \<Rightarrow> string" where
  "normalizeText s =
     trim (collapse_whitespace
       (map (\<lambda>c. if isLowerAlnumOrSpace c then c else SP) (toLowerCase s)))"

definition stop :: "string list" where
  "stop = [''the'', ''is'', ''in'', ''and'', ''of'', ''a'', ''to'', ''for'', ''with'', ''on'',
           ''by'', ''an'', ''be'', ''that'', ''this'', ''it'', ''as'', ''are'']"

definition tokens :: "string \<Rightarrow> string list" where
  "tokens s =
     filter (\<lambda>t. t \<notin> set stop) (filter (\<lambda>t. t \<noteq> []) (split_on SP (normalizeText s)))"

text \<open>
  \<^verbatim>\<open>
  function jaccard(a: string[], b: string[]) {
    const A = new Set(a);
    const B = new Set(b);
    const inter = [...A].filter(x => B.has(x)).length;
    const uni = new Set([...A, ...B]).size;
    return uni === 0 ? 0 : inter / uni;
  }
  \<close>
  The counts are whole numbers; \<open>jaccard\<close> is their exact quotient. The double that the
  division returns is the rounding of this quotient.
\<close>

definition jaccard :: "string list \<Rightarrow> string list \<Rightarrow> real" where
  "jaccard a b =
     (let A = dedupe a; B = dedupe b;
          inter = length (filter (\<lambda>x. x \<in> set B) A);
          uni = length (dedupe (A @ B))
      in if uni = 0 then 0 else real inter / real uni)"

text \<open>A number of the source that may be \<^verbatim>\<open>NaN\<close>.\<close>

datatype jsnum = NaN | Num real

fun js_max :: "jsnum \<Rightarrow> jsnum \<Rightarrow> jsnum" where
  "js_max (Num x) (Num y) = Num (max x y)"
| "js_max _ _ = NaN"

text \<open>\<^verbatim>\<open>x || 0\<close> for a number \<open>x\<close>: \<^verbatim>\<open>NaN\<close> and zero are falsy.\<close>

fun or_zero :: "jsnum \<Rightarrow> real" where
  "or_zero NaN = 0"
| "or_zero (Num x) = x"

text \<open>\<^verbatim>\<open>x >= y\<close> and \<^verbatim>\<open>x <= y\<close>: false when \<open>x\<close> is \<^verbatim>\<open>NaN\<close>.\<close>

fun js_ge :: "jsnum \<Rightarrow> real \<Rightarrow> bool" where
  "js_ge NaN y = False"
| "js_ge (Num x) y = (y \<le> x)"

fun js_le :: "jsnum \<Rightarrow> real \<Rightarrow> bool" where
  "js_le NaN y = False"
| "js_le (Num x) y = (x \<le> y)"

text \<open>
  \<^verbatim>\<open>
  function cosineSim(a: string[], b: string[]) {
    const fa: any = {};
    const fb: any = {};
    a.forEach((w: string) => fa[w] = (fa[w] || 0) + 1);
    b.forEach((w: string) => fb[w] = (fb[w] || 0) + 1);
    const all = new Set([...Object.keys(fa), ...Object.keys(fb)]);
    let dot = 0; let na = 0; let nb = 0;
    all.forEach((w: any) => {
      const va = fa[w] || 0; const vb = fb[w] || 0;
      dot += va * vb;
      na += va * va;
      nb += vb * vb;
    });
    if (na === 0 || nb === 0) return 0;
    return dot / (Math.sqrt(na) * Math.sqrt(nb));
  }
  \<close>
  A word of \<^const>\<open>prototype_functions\<close> in either array is a key of \<^verbatim>\<open>all\<close> whose two
  entries are a string and a function or string: the products are \<^verbatim>\<open>NaN\<close>, the tests
  against zero fail and the result is \<^verbatim>\<open>NaN\<close>. The word \<^verbatim>\<open>__proto__\<close> is no key and adds
  nothing. For the other words the entry is the number of occurrences; the order in
  which the keys are visited does not change the three sums, which are whole numbers.
  \<open>cosineSim\<close> is the exact value of the last expression: it is the double that the code
  returns where the two square roots, their product and the quotient are doubles, as in
  the runs of the distractor selector below. The grader is modelled with the rounded
  operations, in \<open>cosineSim_page\<close>.
\<close>

definition cosineSim :: "string list \<Rightarrow> string list \<Rightarrow> jsnum" where
  "cosineSim a b =
     (let all = filter (\<lambda>w. w \<noteq> ''__proto__'') (dedupe (dedupe a @ dedupe b));
          va = (\<lambda>w. real (count_list a w));
          vb = (\<lambda>w. real (count_list b w));
          dot = (\<Sum>w\<leftarrow>all. va w * vb w);
          na = (\<Sum>w\<leftarrow>all. va w * va w);
          nb = (\<Sum>w\<leftarrow>all. vb w * vb w)
      in if \<exists>w \<in> set all. w \<in> set prototype_functions then NaN
         else if na = 0 \<or> nb = 0 then Num 0
         else Num (dot / (sqrt na * sqrt nb)))"

text \<open>
  \<^verbatim>\<open>
  function semanticSimilarity(a: string, b: string) {
    const ta = tokens(a || '');
    const tb = tokens(b || '');
    if (ta.length === 0 || tb.length === 0) return 0;
    const j = jaccard(ta, tb);
    const c = cosineSim(ta, tb);
    return Math.max(j, c);
  }
  \<close>
\<close>

definition semanticSimilarity :: "string \<Rightarrow> string \<Rightarrow> jsnum" where
  "semanticSimilarity a b =
     (let ta = tokens a; tb = tokens b
      in if ta = [] \<or> tb = [] then Num 0
         else js_max (Num (jaccard ta tb)) (cosineSim ta tb))"

section \<open>Double arithmetic in the grader\<close>





section \<open>The answer grader\<close>

text \<open>
  The two helpers local to \<^verbatim>\<open>semanticMatchScore\<close>:
  \<^verbatim>\<open>
  const bigrams = (s: string) => {
    const t = normalizeText(s || '');
    const parts = t.split(' ').filter(Boolean);
    const out: string[] = [];
    for (let i = 0; i < parts.length - 1; i++) out.push(parts[i] + ' ' + parts[i + 1]);
    return out;
  };
  const bigramJaccard = (a: string[], b: string[]) => {
    const A = new Set(a); const B = new Set(b);
    const inter = [...A].filter(x => B.has(x)).length; const uni = new Set([...A, ...B]).size;
    return uni === 0 ? 0 : inter / uni;
  };
  \<close>
\<close>

definition bigrams :: "string \<Rightarrow> string list" where
  "bigrams s =
     (let t = normalizeText s;
          parts = filter (\<lambda>w. w \<noteq> []) (split_on SP t)
      in map (\<lambda>i. parts ! i @ '' '' @ parts ! (i + 1)) [0 ..< length parts - 1])"

definition bigramJaccard :: "string list \<Rightarrow> string list \<Rightarrow> real" where
  "bigramJaccard a b =
     (let A = dedupe a; B = dedupe b;
          inter = length (filter (\<lambda>x. x \<in> set B) A);
          uni = length (dedupe (A @ B))
      in if uni = 0 then 0 else real inter / real uni)"




text \<open>The Bigram-Jaccard signal as the specification words it: the adjacent pairs of the
  tokens, that is, of the words left after the stop words are removed.\<close>

definition token_bigrams :: "string \<Rightarrow> string list" where
  "token_bigrams s =
     (let parts = tokens s
      in map (\<lambda>i. parts ! i @ '' '' @ parts ! (i + 1)) [0 ..< length parts - 1])"

text \<open>The words of a text, before any stop word is removed: the value of
  \<^verbatim>\<open>normalizeText(s).split(' ').filter(Boolean)\<close>, which both \<^verbatim>\<open>tokens\<close> and \<^verbatim>\<open>bigrams\<close>
  compute first.\<close>

definition normalized_words :: "string \<Rightarrow> string list" where
  "normalized_words s = filter (\<lambda>w. w \<noteq> []) (split_on SP (normalizeText s))"



section \<open>The distractor selector\<close>

text \<open>
  \<^verbatim>\<open>
  function shuffle<T>(arr: T[]) {
    for (let i = arr.length - 1; i > 0; i--) {
      const j = Math.floor(Math.random() * (i + 1));
      [arr[i], arr[j]] = [arr[j], arr[i]];
    }
    return arr;
  }
  \<close>
  The random source is explicit: \<open>rnd k\<close> is the value of the call number \<open>k\<close> of
  \<^verbatim>\<open>Math.random()\<close>, and the count of calls made so far is threaded through.
\<close>

fun shuffle_from :: "(nat \<Rightarrow> real) \<Rightarrow> nat \<Rightarrow> nat \<Rightarrow> 'a list \<Rightarrow> 'a list \<times> nat" where
  "shuffle_from rnd k 0 arr = (arr, k)"
| "shuffle_from rnd k (Suc i) arr =
     (let j = nat \<lfloor>rnd k * real (Suc i + 1)\<rfloor>
      in shuffle_from rnd (k + 1) i (arr[Suc i := arr ! j, j := arr ! Suc i]))"

definition shuffle :: "(nat \<Rightarrow> real) \<Rightarrow> nat \<Rightarrow> 'a list \<Rightarrow> 'a list \<times> nat" where
  "shuffle rnd k arr = shuffle_from rnd k (length arr - 1) arr"

text \<open>\<^verbatim>\<open>xs.sort((a, b) => b.s - a.s)\<close>: a stable sort, highest score first.\<close>

definition sort_by_score_desc :: "(string \<times> jsnum) list \<Rightarrow> (string \<times> jsnum) list" where
  "sort_by_score_desc xs = sort_key (\<lambda>x. - or_zero (snd x)) xs"

text \<open>
  \<^verbatim>\<open>
  const pickFiltered = (cands: string[]) => {
    const scored = cands.map(p => ({ p, s: semanticSimilarity(answer, p) }));
    const inRange = scored.filter(x => x.s >= MIN_SIM && x.s <= MAX_SIM)
                          .sort((a, b) => b.s - a.s).map(x => x.p);
    if (inRange.length >= 3) return inRange.slice(0, 3);
    const relaxed = scored.filter(x => x.s >= (MIN_SIM * 0.6))
                          .sort((a, b) => b.s - a.s).map(x => x.p);
    const uniq = Array.from(new Set([...inRange, ...relaxed]));
    return uniq.slice(0, 3);
  };
  \<close>
  No score that passes a filter is \<^verbatim>\<open>NaN\<close>, so the sort compares numbers.
\<close>

definition pickFiltered :: "string \<Rightarrow> real \<Rightarrow> real \<Rightarrow> string list \<Rightarrow> string list" where
  "pickFiltered answer MIN_SIM MAX_SIM cands =
     (let scored = map (\<lambda>p. (p, semanticSimilarity answer p)) cands;
          inRange = map fst (sort_by_score_desc
                      (filter (\<lambda>x. js_ge (snd x) MIN_SIM \<and> js_le (snd x) MAX_SIM) scored))
      in if 3 \<le> length inRange then take 3 inRange
         else let relaxed = map fst (sort_by_score_desc
                              (filter (\<lambda>x. js_ge (snd x) (MIN_SIM * 0.6)) scored));
                  uniq = dedupe (inRange @ relaxed)
              in take 3 uniq)"

text \<open>\<^verbatim>\<open>while (distractors.length < 3) distractors.push('An unrelated statement');\<close>\<close>

function fill_distractors :: "string list \<Rightarrow> string list" where
  "fill_distractors distractors =
     (if length distractors < 3 then fill_distractors (distractors @ [''An unrelated statement''])
      else distractors)"
  by pat_completeness auto
termination
  by (relation "measure (\<lambda>d. 3 - length d)") auto

declare fill_distractors.simps [simp del]

text \<open>
  What the embedding service gave for the query: no service is configured, the call
  failed (the \<^verbatim>\<open>catch\<close> leaves no distractor), or it returned texts. The phrases that
  \<^verbatim>\<open>pickAnswerPhrase\<close> takes from the sentences of those texts are an input of the model.
\<close>

datatype embedding = NoService | ServiceFailed | ServicePhrases "string list"

text \<open>
  The distractors of one question in \<^verbatim>\<open>POST\<close>, for the answer phrase \<open>answer\<close> and
  the phrase pool \<open>phrases\<close> of the document:
  \<^verbatim>\<open>
  let distractors: string[] = [];
  if (embeddingUrl) {
    try {
      ...
      candTexts.forEach(ct => {
        splitIntoSentences(ct).forEach(ss => {
          const ph = pickAnswerPhrase(ss);
          if (ph && ph.toLowerCase() !== answer.toLowerCase()) candPhrases.push(ph);
        });
      });
      const uniq = Array.from(new Set(candPhrases))
        .filter(p => Math.abs(p.length - answer.length) < Math.max(12, answer.length + 6));
      shuffle(uniq);
      distractors = pickFiltered(uniq);
    } catch (e) {
      distractors = [];
    }
  }
  if (distractors.length < 3) {
    const others = phrases.filter(p => p.toLowerCase() !== answer.toLowerCase()
      && Math.abs(p.length - answer.length) < Math.max(6, answer.length));
    shuffle(others);
    distractors = distractors.concat(pickFiltered(others));
  }
  while (distractors.length < 3) distractors.push('An unrelated statement');
  \<close>
\<close>

definition embeddingDistractors ::
  "string \<Rightarrow> real \<Rightarrow> real \<Rightarrow> (nat \<Rightarrow> real) \<Rightarrow> embedding \<Rightarrow> string list \<times> nat" where
  "embeddingDistractors answer MIN_SIM MAX_SIM rnd emb =
     (case emb of
        NoService \<Rightarrow> ([], 0)
      | ServiceFailed \<Rightarrow> ([], 0)
      | ServicePhrases phs \<Rightarrow>
          (let candPhrases = filter (\<lambda>ph. ph \<noteq> [] \<and> toLowerCase ph \<noteq> toLowerCase answer) phs;
               uniq = filter (\<lambda>p. \<bar>int (length p) - int (length answer)\<bar>
                                     < max 12 (int (length answer) + 6)) (dedupe candPhrases);
               (uniq, k) = shuffle rnd 0 uniq
           in (pickFiltered answer MIN_SIM MAX_SIM uniq, k)))"

definition selectDistractors ::
  "string \<Rightarrow> real \<Rightarrow> real \<Rightarrow> (nat \<Rightarrow> real) \<Rightarrow> embedding \<Rightarrow> string list \<Rightarrow> string list" where
  "selectDistractors answer MIN_SIM MAX_SIM rnd emb phrases =
     (let (distractors, k) = embeddingDistractors answer MIN_SIM MAX_SIM rnd emb;
          distractors =
            (if length distractors < 3
             then let others = filter (\<lambda>p. toLowerCase p \<noteq> toLowerCase answer
                                 \<and> \<bar>int (length p) - int (length answer)\<bar>
                                     < max 6 (int (length answer))) phrases;
                      (others, k) = shuffle rnd k others
                  in distractors @ pickFiltered answer MIN_SIM MAX_SIM others
             else distractors)
      in fill_distractors distractors)"

section \<open>Properties of the normalizer\<close>

lemma isSpace_simps [simp]: "isSpace LF" "isSpace CR" "isSpace SP"
  by (simp_all add: isSpace_def)

lemma dropWhile_isSpace_hd: "dropWhile isSpace cs = d # ds \<Longrightarrow> \<not> isSpace d"
  by (metis hd_dropWhile list.sel(1) list.distinct(1))

lemma single_spaced_collapse: "single_spaced (collapse_whitespace s)"
proof (induction s rule: collapse_whitespace.induct)
  case (1 c cs)
  show ?case
  proof (cases "isSpace c")
    case True
    with 1 have ih: "single_spaced (collapse_whitespace (dropWhile isSpace cs))" by simp
    show ?thesis
    proof (cases "dropWhile isSpace cs")
      case Nil
      then have "collapse_whitespace (dropWhile isSpace cs) = []" by (simp del: dropWhile_eq_Nil_conv)
      with True show ?thesis by simp
    next
      case (Cons d ds)
      then have "\<not> isSpace d" by (rule dropWhile_isSpace_hd)
      with True ih Cons show ?thesis by simp
    qed
  next
    case False
    with 1 have ih: "single_spaced (collapse_whitespace cs)" by simp
    with False show ?thesis by (cases "collapse_whitespace cs") simp_all
  qed
qed simp

lemma collapse_single_spaced: "single_spaced s \<Longrightarrow> collapse_whitespace s = s"
proof (induction s rule: single_spaced.induct)
  case (1 c d cs)
  then show ?case by (cases "isSpace c") auto
qed auto

lemma single_spaced_tl: "single_spaced (c # cs) \<Longrightarrow> single_spaced cs"
  by (cases cs) simp_all

lemma single_spaced_dropWhile: "single_spaced s \<Longrightarrow> single_spaced (dropWhile P s)"
  by (induction s) (auto dest: single_spaced_tl)

lemma single_spaced_prefix: "single_spaced (xs @ ys) \<Longrightarrow> single_spaced xs"
proof (induction xs rule: single_spaced.induct)
  case (1 c d cs)
  then show ?case by simp
next
  case (2 c)
  then show ?case by (cases ys) simp_all
qed simp

lemma rev_dropWhile_rev_prefix: "\<exists>zs. s = rev (dropWhile P (rev s)) @ zs"
  by (metis rev_append rev_rev_ident takeWhile_dropWhile_id)

lemma single_spaced_trim: "single_spaced s \<Longrightarrow> single_spaced (trim s)"
proof -
  assume "single_spaced s"
  then have a: "single_spaced (dropWhile isSpace s)" by (rule single_spaced_dropWhile)
  obtain zs where "dropWhile isSpace s = trim s @ zs"
    unfolding trim_def using rev_dropWhile_rev_prefix by blast
  with a show ?thesis by (metis single_spaced_prefix)
qed

lemma dropWhile_trim: "dropWhile isSpace (trim s) = trim s"
proof (cases "dropWhile isSpace s")
  case Nil
  then have "trim s = []" by (simp add: trim_def del: dropWhile_eq_Nil_conv)
  then show ?thesis by simp
next
  case (Cons h t)
  then have h: "\<not> isSpace h" by (rule dropWhile_isSpace_hd)
  then have "trim s = h # rev (dropWhile isSpace (rev t))"
    by (simp add: trim_def Cons dropWhile_append3)
  with h show ?thesis by simp
qed

lemma trim_trim: "trim (trim s) = trim s"
proof -
  have "trim (trim s) = rev (dropWhile isSpace (rev (trim s)))"
    by (simp add: trim_def[of "trim s"] dropWhile_trim)
  also have "\<dots> = trim s" by (simp add: trim_def)
  finally show ?thesis .
qed

lemma set_trim: "set (trim s) \<subseteq> set s"
  unfolding trim_def by (metis set_dropWhileD set_rev subsetI)

lemma single_spaced_spaces: "single_spaced s \<Longrightarrow> c \<in> set s \<Longrightarrow> isSpace c \<Longrightarrow> c = SP"
  by (induction s rule: single_spaced.induct) auto

lemma replace_crlf_id: "CR \<notin> set s \<Longrightarrow> replace_crlf s = s"
  by (induction s rule: replace_crlf.induct) auto

lemma replace_cr_id: "CR \<notin> set s \<Longrightarrow> replace_cr s = s"
  by (induction s) (auto simp: replace_cr_def)

lemma remove_hyphen_breaks_id: "LF \<notin> set s \<Longrightarrow> remove_hyphen_breaks s = s"
  by (induction s rule: remove_hyphen_breaks.induct) auto

lemma collapse_paragraph_breaks_id: "LF \<notin> set s \<Longrightarrow> collapse_paragraph_breaks s = s"
  by (induction s rule: collapse_paragraph_breaks.induct) auto

lemma newlines_to_spaces_id: "LF \<notin> set s \<Longrightarrow> newlines_to_spaces s = s"
  by (induction s) (auto simp: newlines_to_spaces_def)

lemma normalized_single_spaced: "single_spaced (normalizeTextForExtraction t)"
  by (simp add: normalizeTextForExtraction_def Let_def single_spaced_trim single_spaced_collapse)

lemma normalized_no_breaks: "LF \<notin> set (normalizeTextForExtraction t) \<and> CR \<notin> set (normalizeTextForExtraction t)"
  using single_spaced_spaces[OF normalized_single_spaced, of LF t]
        single_spaced_spaces[OF normalized_single_spaced, of CR t]
  by auto

lemma normalized_trim: "trim (normalizeTextForExtraction t) = normalizeTextForExtraction t"
  by (simp add: normalizeTextForExtraction_def Let_def trim_trim) (simp add: trim_def)

text \<open>
  Claim C8. The normalizer is idempotent: normalizing a normalized text gives the same
  text, for every input string.
\<close>

theorem normalize_idempotent:
  "normalizeTextForExtraction (normalizeTextForExtraction x) = normalizeTextForExtraction x"
proof -
  let ?n = "normalizeTextForExtraction x"
  have lf: "LF \<notin> set ?n" and cr: "CR \<notin> set ?n" using normalized_no_breaks by auto
  have "normalizeTextForExtraction ?n = (if ?n = [] then [] else trim (collapse_whitespace ?n))"
    unfolding normalizeTextForExtraction_def[of ?n] Let_def
    using lf cr
    by (simp add: replace_crlf_id replace_cr_id remove_hyphen_breaks_id
        collapse_paragraph_breaks_id newlines_to_spaces_id)
  also have "\<dots> = (if ?n = [] then [] else trim ?n)"
    by (simp add: collapse_single_spaced normalized_single_spaced)
  also have "\<dots> = ?n" by (simp add: normalized_trim)
  finally show ?thesis .
qed

text \<open>
  Claim C3. The output of the normalizer keeps no paragraph break. The two line feeds
  that stand for a run of line feeds are turned into two spaces by the next replacement
  and into one space by the collapse of white space, so a text with a paragraph break
  and one with a single line break, or with a space, normalize to the same string, and
  no output contains a line feed.
\<close>

theorem normalize_drops_paragraph_break:
  "normalizeTextForExtraction [CHR ''a'', LF, LF, CHR ''b''] = ''a b''
   \<and> normalizeTextForExtraction [CHR ''a'', LF, CHR ''b''] = ''a b''
   \<and> normalizeTextForExtraction ''a b'' = ''a b''
   \<and> LF \<notin> set (normalizeTextForExtraction t)"
proof -
  have "normalizeTextForExtraction [CHR ''a'', LF, LF, CHR ''b''] = ''a b''"
    by code_simp
  moreover have "normalizeTextForExtraction [CHR ''a'', LF, CHR ''b''] = ''a b''"
    by code_simp
  moreover have "normalizeTextForExtraction ''a b'' = ''a b''"
    by code_simp
  ultimately show ?thesis using normalized_no_breaks by blast
qed

section \<open>Properties of the chunker\<close>

lemma length_join: "parts \<noteq> [] \<Longrightarrow> int (length (join '' '' parts)) = weight parts - 1"
  by (induction "'' ''" parts rule: join.induct) (auto simp: weight_def)

lemma gather_bounds:
  "gather ss cc i len parts = (g, ps) \<Longrightarrow> i \<le> length ss \<Longrightarrow> i \<le> g \<and> g \<le> length ss"
proof (induction ss cc i len parts rule: gather.induct)
  case (1 sentences chunkChars idx len parts)
  show ?case
  proof (cases "idx < length sentences \<and> (len < chunkChars \<or> parts = [])")
    case True
    with 1 show ?thesis by (simp add: gather.simps[of sentences chunkChars idx])
  next
    case False
    with 1 show ?thesis by (simp add: gather.simps[of sentences chunkChars idx])
  qed
qed

lemma gather_progress:
  "gather ss cc i len [] = (g, ps) \<Longrightarrow> i < length ss \<Longrightarrow> i < g \<and> g \<le> length ss"
proof -
  assume a: "gather ss cc i len [] = (g, ps)" and b: "i < length ss"
  from b have "gather ss cc i len [] = gather ss cc (Suc i) (len + int (length (ss ! i)) + 1) [ss ! i]"
    by (simp add: gather.simps[of ss cc i])
  with a have "gather ss cc (Suc i) (len + int (length (ss ! i)) + 1) [ss ! i] = (g, ps)" by simp
  from gather_bounds[OF this] b show ?thesis by simp
qed

lemma gather_full:
  "gather ss cc i len parts = (g, ps) \<Longrightarrow> len = weight parts \<Longrightarrow> g < length ss
   \<Longrightarrow> cc \<le> weight ps \<and> ps \<noteq> []"
proof (induction ss cc i len parts rule: gather.induct)
  case (1 sentences chunkChars idx len parts)
  show ?case
  proof (cases "idx < length sentences \<and> (len < chunkChars \<or> parts = [])")
    case True
    with 1 show ?thesis
      by (simp add: gather.simps[of sentences chunkChars idx] weight_def)
  next
    case False
    with 1 show ?thesis
      by (auto simp add: gather.simps[of sentences chunkChars idx])
  qed
qed

lemma backtrack_bounds:
  "s \<le> j \<Longrightarrow> s \<le> backtrack ss oc s bk j \<and> backtrack ss oc s bk j \<le> j"
proof (induction ss oc s bk j rule: backtrack.induct)
  case (1 sentences overlapChars startIdx bk j)
  show ?case
  proof (cases "startIdx < j \<and> bk < overlapChars")
    case True
    then have "startIdx \<le> j - 1" by arith
    from "1.IH"[OF True this] True show ?thesis
      by (simp add: backtrack.simps[of sentences overlapChars startIdx bk j]) linarith
  next
    case False
    then have "backtrack sentences overlapChars startIdx bk j = j"
      by (subst backtrack.simps) (simp only: if_False)
    with 1 show ?thesis by simp
  qed
qed

text \<open>What one pass of the outer loop does.\<close>

lemma chunk_body_step:
  assumes "i < length ss"
  obtains i' cp' c where
    "chunk_body ss cc oc i cp acc = (i', cp', acc @ [c])"
    "i < i'" "i' \<le> length ss"
    "startSentence c = int i" "int i' - 1 \<le> endSentence c" "endSentence c < int (length ss)"
    "startChar c = cp" "cp \<le> cp'"
    "i' < length ss \<Longrightarrow> oc + 1 < cc \<Longrightarrow> cp < cp'"
proof -
  obtain g ps where g: "gather ss cc i 0 [] = (g, ps)" by (cases "gather ss cc i 0 []")
  from gather_progress[OF g assms] have ig: "i < g" "g \<le> length ss" by auto
  define c where "c = \<lparr>chunk_id = show_int cp @ ''-'' @ show_int (cp + int (length (join '' '' ps))),
              chunk_text = join '' '' ps,
              startSentence = int i, endSentence = int g - 1,
              startChar = cp, endChar = cp + int (length (join '' '' ps))\<rparr>"
  show ?thesis
  proof (cases "g < length ss")
    case True
    define j where "j = backtrack ss oc i 0 (g - 1)"
    from ig have "i \<le> g - 1" by simp
    from backtrack_bounds[OF this, of ss oc 0] have j: "i \<le> j" "j \<le> g - 1" by (auto simp: j_def)
    from gather_full[OF g _ True] have w: "cc \<le> weight ps" "ps \<noteq> []" by (auto simp: weight_def)
    then have len: "cc - 1 \<le> int (length (join '' '' ps))" by (simp add: length_join)
    have eq: "chunk_body ss cc oc i cp acc
              = (max i (j + 1), cp + max 0 (int (length (join '' '' ps)) - oc), acc @ [c])"
      using True by (simp add: chunk_body_def g Let_def c_def j_def)
    show ?thesis
    proof (rule that[OF eq])
      show "i < max i (j + 1)" using j by simp
      show "max i (j + 1) \<le> length ss" using j ig by simp
      show "startSentence c = int i" by (simp add: c_def)
      show "int (max i (j + 1)) - 1 \<le> endSentence c" using j ig by (simp add: c_def)
      show "endSentence c < int (length ss)" using ig by (simp add: c_def)
      show "startChar c = cp" by (simp add: c_def)
      show "cp \<le> cp + max 0 (int (length (join '' '' ps)) - oc)" by simp
      show "oc + 1 < cc \<Longrightarrow> cp < cp + max 0 (int (length (join '' '' ps)) - oc)"
        using len by simp
    qed
  next
    case False
    with ig have gl: "g = length ss" by simp
    have eq: "chunk_body ss cc oc i cp acc
              = (length ss, cp + int (length (join '' '' ps)), acc @ [c])"
      using False by (simp add: chunk_body_def g Let_def c_def)
    show ?thesis
    proof (rule that[OF eq])
      show "i < length ss" by fact
      show "startSentence c = int i" by (simp add: c_def)
      show "int (length ss) - 1 \<le> endSentence c" using gl by (simp add: c_def)
      show "endSentence c < int (length ss)" using gl by (simp add: c_def)
      show "startChar c = cp" by (simp add: c_def)
      show "cp \<le> cp + int (length (join '' '' ps))" by simp
    qed simp_all
  qed
qed


lemma chunk_body_acc:
  "chunk_body ss cc oc i cp acc =
     (case chunk_body ss cc oc i cp [] of (i', cp', cs) \<Rightarrow> (i', cp', acc @ cs))"
  by (simp add: chunk_body_def Let_def split: prod.splits)

lemma chunk_loop_rule:
  assumes base: "\<And>i cp. length ss \<le> i \<Longrightarrow> Q i cp []"
    and step: "\<And>i cp i' cp' c new. i < length ss \<Longrightarrow> i < i' \<Longrightarrow> i' \<le> length ss \<Longrightarrow>
                 startSentence c = int i \<Longrightarrow> int i' - 1 \<le> endSentence c \<Longrightarrow>
                 endSentence c < int (length ss) \<Longrightarrow> startChar c = cp \<Longrightarrow> cp \<le> cp' \<Longrightarrow>
                 (i' < length ss \<Longrightarrow> oc + 1 < cc \<Longrightarrow> cp < cp') \<Longrightarrow>
                 Q i' cp' new \<Longrightarrow> Q i cp (c # new)"
  shows "\<exists>new. chunk_loop ss cc oc i cp acc = Some (acc @ new) \<and> Q i cp new"
proof (induction "length ss - i" arbitrary: i cp acc rule: less_induct)
  case less
  show ?case
  proof (cases "i < length ss")
    case False
    then have "chunk_loop ss cc oc i cp acc = Some acc"
      by (subst chunk_loop.simps) simp
    moreover from False have "Q i cp []" by (intro base) simp
    ultimately show ?thesis by simp
  next
    case True
    show ?thesis
    proof (rule chunk_body_step[OF True, of cc oc cp acc])
      fix i' cp' c
      assume b: "chunk_body ss cc oc i cp acc = (i', cp', acc @ [c])"
        and lt: "i < i'" "i' \<le> length ss"
        and c: "startSentence c = int i" "int i' - 1 \<le> endSentence c"
               "endSentence c < int (length ss)" "startChar c = cp" "cp \<le> cp'"
        and strict: "i' < length ss \<Longrightarrow> oc + 1 < cc \<Longrightarrow> cp < cp'"
      from lt True have "length ss - i' < length ss - i" by simp
      from less[OF this, of cp' "acc @ [c]"] obtain new where
        n: "chunk_loop ss cc oc i' cp' (acc @ [c]) = Some ((acc @ [c]) @ new)" "Q i' cp' new"
        by blast
      have "chunk_loop ss cc oc i cp acc = Some (acc @ (c # new))"
        using True b n(1) by (subst chunk_loop.simps) simp
      moreover have "Q i cp (c # new)"
        using step[OF True lt c strict n(2)] by simp
      ultimately show ?thesis by blast
    qed
  qed
qed

lemma chunk_loop_start_sentences:
  "\<exists>new. chunk_loop ss cc oc i cp acc = Some (acc @ new)
     \<and> (sorted_wrt (<) (map startSentence new) \<and> (\<forall>c\<in>set new. int i \<le> startSentence c))"
  by (rule chunk_loop_rule) (simp, fastforce)

lemma chunk_loop_coverage:
  "\<exists>new. chunk_loop ss cc oc i cp acc = Some (acc @ new)
     \<and> (\<forall>k. i \<le> k \<and> k < length ss \<longrightarrow>
            (\<exists>c\<in>set new. startSentence c \<le> int k \<and> int k \<le> endSentence c))"
proof (rule chunk_loop_rule)
  fix i :: nat and cp :: int
  assume "length ss \<le> i"
  then show "\<forall>k. i \<le> k \<and> k < length ss \<longrightarrow>
            (\<exists>c\<in>set []. startSentence c \<le> int k \<and> int k \<le> endSentence c)" by simp
next
  fix i i' :: nat and cp cp' :: int and c :: chunk and new :: "chunk list"
  assume c: "startSentence c = int i" "int i' - 1 \<le> endSentence c"
    and ih: "\<forall>k. i' \<le> k \<and> k < length ss \<longrightarrow>
            (\<exists>c\<in>set new. startSentence c \<le> int k \<and> int k \<le> endSentence c)"
  show "\<forall>k. i \<le> k \<and> k < length ss \<longrightarrow>
            (\<exists>c\<in>set (c # new). startSentence c \<le> int k \<and> int k \<le> endSentence c)"
  proof (intro allI impI)
    fix k assume k: "i \<le> k \<and> k < length ss"
    show "\<exists>c\<in>set (c # new). startSentence c \<le> int k \<and> int k \<le> endSentence c"
    proof (cases "k < i'")
      case True
      with c k have "startSentence c \<le> int k \<and> int k \<le> endSentence c" by simp
      then show ?thesis by simp
    next
      case False
      with k ih show ?thesis by simp
    qed
  qed
qed

lemma chunk_loop_start_chars:
  "\<exists>new. chunk_loop ss cc oc i cp acc = Some (acc @ new)
     \<and> ((new \<noteq> [] \<longrightarrow> i < length ss) \<and> (\<forall>c\<in>set new. cp \<le> startChar c)
        \<and> sorted (map startChar new)
        \<and> (oc + 1 < cc \<longrightarrow> sorted_wrt (<) (map startChar new)))"
proof (rule chunk_loop_rule)
  fix i :: nat and cp :: int
  show "([] \<noteq> [] \<longrightarrow> i < length ss) \<and> (\<forall>c\<in>set []. cp \<le> startChar c)
        \<and> sorted (map startChar []) \<and> (oc + 1 < cc \<longrightarrow> sorted_wrt (<) (map startChar []))"
    by simp
next
  fix i i' :: nat and cp cp' :: int and c :: chunk and new :: "chunk list"
  assume i: "i < length ss" and c: "startChar c = cp" "cp \<le> cp'"
    and strict: "i' < length ss \<Longrightarrow> oc + 1 < cc \<Longrightarrow> cp < cp'"
    and ih: "(new \<noteq> [] \<longrightarrow> i' < length ss) \<and> (\<forall>c\<in>set new. cp' \<le> startChar c)
        \<and> sorted (map startChar new) \<and> (oc + 1 < cc \<longrightarrow> sorted_wrt (<) (map startChar new))"
  have le: "\<forall>x\<in>set new. startChar c \<le> startChar x" using c ih by fastforce
  have lt: "oc + 1 < cc \<Longrightarrow> \<forall>x\<in>set new. startChar c < startChar x"
  proof
    fix x assume a: "oc + 1 < cc" "x \<in> set new"
    then have "new \<noteq> []" by auto
    with ih have "i' < length ss" by simp
    from strict[OF this a(1)] ih a(2) c show "startChar c < startChar x" by fastforce
  qed
  show "(c # new \<noteq> [] \<longrightarrow> i < length ss) \<and> (\<forall>x\<in>set (c # new). cp \<le> startChar x)
        \<and> sorted (map startChar (c # new))
        \<and> (oc + 1 < cc \<longrightarrow> sorted_wrt (<) (map startChar (c # new)))"
    using i c ih le lt by auto
qed

lemma chunker_unfold:
  "chunkIntoSemanticChunks text cc oc =
     (if normalizeTextForExtraction text = [] then Some []
      else chunk_loop (splitIntoSentences (normalizeTextForExtraction text)) cc oc 0 0 [])"
  by (simp add: chunkIntoSemanticChunks_def Let_def)

lemma splitIntoSentences_Nil: "splitIntoSentences [] = []"
  by (simp add: splitIntoSentences_def)

text \<open>
  Claim C7. The chunker returns a list of chunks for every text and every pair of
  parameters, also when \<open>overlapChars\<close> is not below \<open>chunkChars\<close>: the loop
  ends, and the starting sentence index of each chunk is strictly greater than that of
  the chunk before it.
\<close>

theorem chunker_terminates:
  "\<exists>cs. chunkIntoSemanticChunks text cc oc = Some cs \<and> sorted_wrt (<) (map startSentence cs)"
proof (cases "normalizeTextForExtraction text = []")
  case True
  then show ?thesis by (simp add: chunker_unfold)
next
  case False
  from chunk_loop_start_sentences[of "splitIntoSentences (normalizeTextForExtraction text)" cc oc 0 0 "[]"]
  show ?thesis using False by (auto simp: chunker_unfold)
qed

text \<open>
  Claim C5. For \<open>overlapChars < chunkChars\<close>, every sentence index below the number
  of sentences of the normalized text lies in the range from \<open>startSentence\<close> to
  \<open>endSentence\<close> of some chunk that the chunker returns.
\<close>

theorem chunks_cover_sentences:
  assumes "oc < cc"
    and "k < length (splitIntoSentences (normalizeTextForExtraction text))"
  shows "\<exists>cs. chunkIntoSemanticChunks text cc oc = Some cs
           \<and> (\<exists>c\<in>set cs. startSentence c \<le> int k \<and> int k \<le> endSentence c)"
proof -
  from assms(2) have ne: "normalizeTextForExtraction text \<noteq> []"
    by (auto simp: splitIntoSentences_Nil)
  from chunk_loop_coverage[of "splitIntoSentences (normalizeTextForExtraction text)" cc oc 0 0 "[]"]
  show ?thesis using ne assms(2) by (auto simp: chunker_unfold)
qed

theorem chunks_cover_sentences_witness:
  "(2 :: int) < 3 \<and> 1 < length (splitIntoSentences (normalizeTextForExtraction ''A. B.''))
   \<and> (\<exists>cs. chunkIntoSemanticChunks ''A. B.'' 3 2 = Some cs
           \<and> (\<exists>c\<in>set cs. startSentence c \<le> int 1 \<and> int 1 \<le> endSentence c))"
proof -
  have a: "(2 :: int) < 3" by simp
  have b: "1 < length (splitIntoSentences (normalizeTextForExtraction ''A. B.''))"
    by code_simp
  from chunks_cover_sentences[OF a b] a b show ?thesis by blast
qed

text \<open>
  Claim C4, amended. The values of \<open>startChar\<close> never decrease along the chunks, and
  they increase strictly when \<open>overlapChars + 1 < chunkChars\<close>. As stated, for every
  configuration, the claim fails: the next \<open>startChar\<close> is the previous one plus
  \<open>max 0 (length chunkText - overlapChars)\<close>, which adds nothing when the overlap is
  at least as long as the chunk body.
\<close>

theorem start_chars_monotone:
  "\<exists>cs. chunkIntoSemanticChunks text cc oc = Some cs \<and> sorted (map startChar cs)
        \<and> (oc + 1 < cc \<longrightarrow> sorted_wrt (<) (map startChar cs))"
proof (cases "normalizeTextForExtraction text = []")
  case True
  then show ?thesis by (simp add: chunker_unfold)
next
  case False
  from chunk_loop_start_chars[of "splitIntoSentences (normalizeTextForExtraction text)" cc oc 0 0 "[]"]
  show ?thesis using False by (auto simp: chunker_unfold)
qed

theorem start_chars_monotone_witness:
  "(2 :: int) + 1 < 6
   \<and> chunkIntoSemanticChunks ''Aa. Bb. Cc. Dd.'' 6 2 \<noteq> None
   \<and> map_option (map startChar) (chunkIntoSemanticChunks ''Aa. Bb. Cc. Dd.'' 6 2) = Some [0, 5, 10]
   \<and> sorted_wrt (<) (map startChar (the (chunkIntoSemanticChunks ''Aa. Bb. Cc. Dd.'' 6 2)))"
proof -
  have v: "map_option (map startChar) (chunkIntoSemanticChunks ''Aa. Bb. Cc. Dd.'' 6 2) = Some [0, 5, 10]"
    by code_simp
  from start_chars_monotone[of "''Aa. Bb. Cc. Dd.''" 6 2] v show ?thesis by auto
qed

text \<open>
  The text \<^verbatim>\<open>A. B.\<close> with \<open>chunkChars = 3\<close> and \<open>overlapChars = 2\<close> gives two chunks
  that both start at character 0.
\<close>

theorem start_chars_repeat_counterexample:
  "map_option (map startChar) (chunkIntoSemanticChunks ''A. B.'' 3 2) = Some [0, 0]"
  by code_simp

text \<open>
  Claim C1, amended. For the example text with \<open>chunkChars = 50\<close> and
  \<open>overlapChars = 10\<close> the chunker returns one chunk, whose body is the whole text:
  after the first sentence \<^verbatim>\<open>len\<close> is 47 + 1 = 48, which is below 50, so the second
  sentence is added to the same chunk and no sentence remains for a second chunk.
\<close>

theorem example_chunks:
  "chunkIntoSemanticChunks
     ''The mitochondria is the powerhouse of the cell. It produces ATP through respiration.'' 50 10
   = Some [\<lparr>chunk_id = ''0-84'',
             chunk_text = ''The mitochondria is the powerhouse of the cell. It produces ATP through respiration.'',
             startSentence = 0, endSentence = 1, startChar = 0, endChar = 84\<rparr>]"
  by code_simp

text \<open>The first chunk body is not the first sentence alone, and there is no second
  chunk.\<close>

theorem example_chunks_counterexample:
  "map_option (chunk_text \<circ> hd)
     (chunkIntoSemanticChunks
        ''The mitochondria is the powerhouse of the cell. It produces ATP through respiration.'' 50 10)
     \<noteq> Some ''The mitochondria is the powerhouse of the cell.''
   \<and> map_option length
     (chunkIntoSemanticChunks
        ''The mitochondria is the powerhouse of the cell. It produces ATP through respiration.'' 50 10)
     = Some 1"
  by code_simp

section \<open>Properties of the header and footer filter\<close>

lemma split_on_no_sep: "l \<in> set (split_on sep s) \<Longrightarrow> sep \<notin> set l"
proof (induction sep s rule: split_on.induct)
  case (1 sep s)
  have tw: "sep \<notin> set (takeWhile (\<lambda>c. c \<noteq> sep) s)"
    by (auto dest: set_takeWhileD)
  show ?case
  proof (cases "dropWhile (\<lambda>c. c \<noteq> sep) s")
    case Nil
    with 1(2) have "l = takeWhile (\<lambda>c. c \<noteq> sep) s"
      by (simp add: split_on.simps[of sep s] del: dropWhile_eq_Nil_conv)
    with tw show ?thesis by simp
  next
    case (Cons x rest)
    with 1(2) have "l = takeWhile (\<lambda>c. c \<noteq> sep) s \<or> l \<in> set (split_on sep rest)"
      by (simp add: split_on.simps[of sep s])
    with tw "1.IH"[OF Cons] show ?thesis by auto
  qed
qed

lemma split_on_plain: "sep \<notin> set l \<Longrightarrow> split_on sep l = [l]"
proof -
  assume a: "sep \<notin> set l"
  then have "dropWhile (\<lambda>c. c \<noteq> sep) l = []" by auto
  moreover from a have "takeWhile (\<lambda>c. c \<noteq> sep) l = l" by (auto intro: takeWhile_eq_all_conv[THEN iffD2])
  ultimately show ?thesis by (simp add: split_on.simps[of sep l] del: dropWhile_eq_Nil_conv)
qed

lemma split_on_append:
  "sep \<notin> set l \<Longrightarrow> split_on sep (l @ sep # rest) = l # split_on sep rest"
proof -
  assume a: "sep \<notin> set l"
  then have "dropWhile (\<lambda>c. c \<noteq> sep) (l @ sep # rest) = sep # rest"
    by (simp add: dropWhile_append3 dropWhile_append)
  moreover from a have "takeWhile (\<lambda>c. c \<noteq> sep) (l @ sep # rest) = l"
    by (simp add: takeWhile_append)
  ultimately show ?thesis by (simp add: split_on.simps[of sep "l @ sep # rest"])
qed

lemma split_on_join:
  "ls \<noteq> [] \<Longrightarrow> \<forall>l\<in>set ls. sep \<notin> set l \<Longrightarrow> split_on sep (join [sep] ls) = ls"
proof (induction "[sep]" ls rule: join.induct)
  case 1
  then show ?case by simp
next
  case (2 x)
  then show ?case by (simp add: split_on_plain)
next
  case (3 x y ys)
  then show ?case by (simp add: split_on_append)
qed

lemma trim_no_sep: "c \<notin> set l \<Longrightarrow> c \<notin> set (trim l)"
  using set_trim by blast

lemma repeats_subset: "set (repeats pages) \<subseteq> {l. l \<noteq> []}"
  by (auto simp: repeats_def Let_def dedupe_def)

lemma split_on_not_Nil: "split_on sep s \<noteq> []"
proof (cases "dropWhile (\<lambda>c. c \<noteq> sep) s")
  case Nil
  then show ?thesis by (simp add: split_on.simps[of sep s] del: dropWhile_eq_Nil_conv)
next
  case (Cons x rest)
  then show ?thesis by (simp add: split_on.simps[of sep s])
qed

lemma join_split_on: "join [sep] (split_on sep s) = s"
proof (induction sep s rule: split_on.induct)
  case (1 sep s)
  have td: "takeWhile (\<lambda>c. c \<noteq> sep) s @ dropWhile (\<lambda>c. c \<noteq> sep) s = s" by simp
  show ?case
  proof (cases "dropWhile (\<lambda>c. c \<noteq> sep) s")
    case Nil
    with td have "takeWhile (\<lambda>c. c \<noteq> sep) s = s" by (simp del: takeWhile_dropWhile_id dropWhile_eq_Nil_conv)
    with Nil show ?thesis by (simp add: split_on.simps[of sep s] del: dropWhile_eq_Nil_conv)
  next
    case (Cons x rest)
    have "\<not> (hd (dropWhile (\<lambda>c. c \<noteq> sep) s) \<noteq> sep)"
      by (rule hd_dropWhile) (simp add: Cons del: dropWhile_eq_Nil_conv)
    with Cons have x: "x = sep" by simp
    from td Cons x have s: "takeWhile (\<lambda>c. c \<noteq> sep) s @ sep # rest = s"
      by (simp del: takeWhile_dropWhile_id)
    obtain y ys where r: "split_on sep rest = y # ys"
      using split_on_not_Nil[of sep rest] by (cases "split_on sep rest") auto
    from "1.IH"[OF Cons] r have "join [sep] (y # ys) = rest" by simp
    with Cons r have "join [sep] (split_on sep s) = takeWhile (\<lambda>c. c \<noteq> sep) s @ sep # rest"
      by (simp add: split_on.simps[of sep s])
    with s show ?thesis by simp
  qed
qed

lemma map_id_iff: "map f xs = xs \<longleftrightarrow> (\<forall>x\<in>set xs. f x = x)"
  by (induction xs) auto

lemma filter_map_id_iff:
  "filter P (map f xs) = xs \<longleftrightarrow> (\<forall>x\<in>set xs. f x = x \<and> P x)"
proof
  assume a: "filter P (map f xs) = xs"
  have "length (filter P (map f xs)) + length (filter (\<lambda>x. \<not> P x) (map f xs)) = length (map f xs)"
    by (rule sum_length_filter_compl)
  with a have "length (filter (\<lambda>x. \<not> P x) (map f xs)) = 0" by simp
  then have "filter (\<lambda>x. \<not> P x) (map f xs) = []" by (simp only: length_0_conv)
  then have all: "\<forall>x\<in>set (map f xs). P x" by (simp add: filter_empty_conv)
  then have "filter P (map f xs) = map f xs" by (simp only: filter_id_conv)
  with a have m: "map f xs = xs" by simp
  then have fx: "\<forall>x\<in>set xs. f x = x" by (simp only: map_id_iff)
  show "\<forall>x\<in>set xs. f x = x \<and> P x"
  proof
    fix x assume x: "x \<in> set xs"
    with fx have "f x = x" by simp
    moreover from x all have "P (f x)" by simp
    ultimately show "f x = x \<and> P x" by simp
  qed
next
  assume a: "\<forall>x\<in>set xs. f x = x \<and> P x"
  then have "map f xs = xs" by (simp add: map_id_iff)
  with a show "filter P (map f xs) = xs" by simp
qed

lemma page_unchanged_iff:
  assumes "[] \<notin> set R"
  shows "(if p = [] then p else join [LF] (filter (\<lambda>l. l \<notin> set R) (map trim (split_on LF p)))) = p
         \<longleftrightarrow> (\<forall>l\<in>set (split_on LF p). trim l = l \<and> l \<notin> set R)"
proof (cases "p = []")
  case True
  then show ?thesis using assms by (simp add: split_on.simps[of LF "[]"] trim_def)
next
  case False
  let ?ls = "split_on LF p"
  let ?kept = "filter (\<lambda>l. l \<notin> set R) (map trim ?ls)"
  have "join [LF] ?kept = p \<longleftrightarrow> ?kept = ?ls"
  proof
    assume j: "join [LF] ?kept = p"
    with False have ne: "?kept \<noteq> []" by auto
    have "\<forall>l\<in>set ?kept. LF \<notin> set l"
    proof
      fix l assume "l \<in> set ?kept"
      then obtain l0 where "l0 \<in> set ?ls" "l = trim l0" by auto
      then show "LF \<notin> set l" using split_on_no_sep trim_no_sep by blast
    qed
    with ne have "split_on LF (join [LF] ?kept) = ?kept" by (rule split_on_join)
    with j show "?kept = ?ls" by simp
  next
    assume "?kept = ?ls"
    then show "join [LF] ?kept = p" by (simp add: join_split_on)
  qed
  also have "\<dots> \<longleftrightarrow> (\<forall>l\<in>set ?ls. trim l = l \<and> trim l \<notin> set R)"
    using filter_map_id_iff[of "\<lambda>l. l \<notin> set R" trim ?ls] by auto
  also have "\<dots> \<longleftrightarrow> (\<forall>l\<in>set ?ls. trim l = l \<and> l \<notin> set R)" by auto
  finally show ?thesis using False by simp
qed

lemma pages_unchanged_iff:
  assumes "2 \<le> length pages"
  shows "removeHeadersFootersFromPages pages = pages
         \<longleftrightarrow> (\<forall>p\<in>set pages. \<forall>l\<in>set (split_on LF p). trim l = l \<and> l \<notin> set (repeats pages))"
proof -
  have e: "[] \<notin> set (repeats pages)" using repeats_subset by blast
  let ?g = "\<lambda>p. if p = [] then p
                 else join [LF] (filter (\<lambda>l. l \<notin> set (repeats pages)) (map trim (split_on LF p)))"
  from assms have "removeHeadersFootersFromPages pages = map ?g pages"
    by (simp add: removeHeadersFootersFromPages_def Let_def)
  moreover have "map ?g pages = pages \<longleftrightarrow> (\<forall>p\<in>set pages. ?g p = p)"
    by (rule map_id_iff)
  ultimately show ?thesis using page_unchanged_iff[OF e] by simp
qed

text \<open>
  Claim C10, amended. An input of fewer than two pages is returned as it is. For an
  input of two or more pages, every page of the output is the join of the trimmed lines
  of that page that are not classified as repeated: each surviving line is the trimmed
  form of a line of the input page, the lines of the output page are exactly the
  surviving lines (when there is one), and when no line is classified every line is
  still trimmed. Such an input comes back equal to itself exactly when every line of
  every page is already trimmed and none is classified; so it is not only the inputs of
  fewer than two pages that are returned unchanged.
\<close>

theorem header_footer_filter_trims:
  "(length pages < 2 \<longrightarrow> removeHeadersFootersFromPages pages = pages)
   \<and> (2 \<le> length pages \<longrightarrow>
        length (removeHeadersFootersFromPages pages) = length pages
        \<and> (\<forall>i < length pages.
             let kept = filter (\<lambda>l. l \<notin> set (repeats pages)) (map trim (split_on LF (pages ! i)))
             in removeHeadersFootersFromPages pages ! i = join [LF] kept
                \<and> (kept \<noteq> [] \<longrightarrow> split_on LF (removeHeadersFootersFromPages pages ! i) = kept)
                \<and> (\<forall>l\<in>set kept. \<exists>l0\<in>set (split_on LF (pages ! i)). l = trim l0)
                \<and> (repeats pages = [] \<longrightarrow> kept = map trim (split_on LF (pages ! i)))))
   \<and> (2 \<le> length pages \<longrightarrow>
        (removeHeadersFootersFromPages pages = pages
         \<longleftrightarrow> (\<forall>p\<in>set pages. \<forall>l\<in>set (split_on LF p).
                trim l = l \<and> l \<notin> set (repeats pages))))"
proof (intro conjI impI allI)
  assume "length pages < 2"
  then show "removeHeadersFootersFromPages pages = pages"
    by (simp add: removeHeadersFootersFromPages_def)
next
  assume "2 \<le> length pages"
  then show "length (removeHeadersFootersFromPages pages) = length pages"
    by (simp add: removeHeadersFootersFromPages_def)
next
  fix i
  assume len: "2 \<le> length pages" and i: "i < length pages"
  define kept where
    "kept = filter (\<lambda>l. l \<notin> set (repeats pages)) (map trim (split_on LF (pages ! i)))"
  have out: "removeHeadersFootersFromPages pages ! i = join [LF] kept"
  proof (cases "pages ! i = []")
    case True
    have "[] \<notin> set (repeats pages)" using repeats_subset by blast
    then have "kept = [[]]"
      by (simp add: kept_def True split_on.simps[of LF "[]"] trim_def)
    with True len i show ?thesis by (simp add: removeHeadersFootersFromPages_def)
  next
    case False
    with len i show ?thesis by (simp add: removeHeadersFootersFromPages_def kept_def Let_def)
  qed
  have nosep: "\<forall>l\<in>set kept. LF \<notin> set l"
  proof
    fix l assume "l \<in> set kept"
    then obtain l0 where "l0 \<in> set (split_on LF (pages ! i))" "l = trim l0"
      by (auto simp: kept_def)
    then show "LF \<notin> set l" using split_on_no_sep trim_no_sep by blast
  qed
  have "kept \<noteq> [] \<longrightarrow> split_on LF (removeHeadersFootersFromPages pages ! i) = kept"
    using nosep by (simp add: out split_on_join)
  moreover have "\<forall>l\<in>set kept. \<exists>l0\<in>set (split_on LF (pages ! i)). l = trim l0"
    by (auto simp: kept_def)
  moreover have "repeats pages = [] \<longrightarrow> kept = map trim (split_on LF (pages ! i))"
    by (simp add: kept_def)
  ultimately show "let kept = filter (\<lambda>l. l \<notin> set (repeats pages)) (map trim (split_on LF (pages ! i)))
             in removeHeadersFootersFromPages pages ! i = join [LF] kept
                \<and> (kept \<noteq> [] \<longrightarrow> split_on LF (removeHeadersFootersFromPages pages ! i) = kept)
                \<and> (\<forall>l\<in>set kept. \<exists>l0\<in>set (split_on LF (pages ! i)). l = trim l0)
                \<and> (repeats pages = [] \<longrightarrow> kept = map trim (split_on LF (pages ! i)))"
    using out unfolding Let_def kept_def by blast
next
  assume "2 \<le> length pages"
  then show "removeHeadersFootersFromPages pages = pages
         \<longleftrightarrow> (\<forall>p\<in>set pages. \<forall>l\<in>set (split_on LF p).
                trim l = l \<and> l \<notin> set (repeats pages))"
    by (rule pages_unchanged_iff)
qed

text \<open>Two pages with no repeated first or last line: the lines come back trimmed, so
  the pages differ from the input although nothing was classified; a single page comes
  back with its white space.\<close>

theorem header_footer_filter_trims_witness:
  "2 \<le> length [[SP, CHR ''a'', LF, SP, CHR ''b''], [CHR ''c'', LF, CHR ''d'', SP]]
   \<and> repeats [[SP, CHR ''a'', LF, SP, CHR ''b''], [CHR ''c'', LF, CHR ''d'', SP]] = []
   \<and> removeHeadersFootersFromPages [[SP, CHR ''a'', LF, SP, CHR ''b''], [CHR ''c'', LF, CHR ''d'', SP]] ! 0
       = join [LF] (map trim (split_on LF [SP, CHR ''a'', LF, SP, CHR ''b'']))
   \<and> removeHeadersFootersFromPages [[SP, CHR ''a'', LF, SP, CHR ''b''], [CHR ''c'', LF, CHR ''d'', SP]]
       = [[CHR ''a'', LF, CHR ''b''], [CHR ''c'', LF, CHR ''d'']]
   \<and> length [[SP, CHR ''a'']] < 2
   \<and> removeHeadersFootersFromPages [[SP, CHR ''a'']] = [[SP, CHR ''a'']]"
proof -
  let ?pages = "[[SP, CHR ''a'', LF, SP, CHR ''b''], [CHR ''c'', LF, CHR ''d'', SP]]"
  have len: "2 \<le> length ?pages" by simp
  have rep: "repeats ?pages = []" by code_simp
  have val: "removeHeadersFootersFromPages ?pages = [[CHR ''a'', LF, CHR ''b''], [CHR ''c'', LF, CHR ''d'']]"
    by code_simp
  from header_footer_filter_trims[of ?pages] len rep
  have "removeHeadersFootersFromPages ?pages ! 0
       = join [LF] (map trim (split_on LF [SP, CHR ''a'', LF, SP, CHR ''b'']))"
    by (simp add: Let_def)
  moreover from header_footer_filter_trims[of "[[SP, CHR ''a'']]"]
  have "removeHeadersFootersFromPages [[SP, CHR ''a'']] = [[SP, CHR ''a'']]" by simp
  ultimately show ?thesis using len rep val by simp
qed

text \<open>Two pages whose lines are trimmed and not repeated come back as they are: an
  input of two pages that is returned unchanged.\<close>

theorem header_footer_filter_unchanged_counterexample:
  "2 \<le> length [[CHR ''a'', LF, CHR ''b''], [CHR ''c'', LF, CHR ''d'']]
   \<and> removeHeadersFootersFromPages [[CHR ''a'', LF, CHR ''b''], [CHR ''c'', LF, CHR ''d'']]
       = [[CHR ''a'', LF, CHR ''b''], [CHR ''c'', LF, CHR ''d'']]"
proof -
  have "removeHeadersFootersFromPages [[CHR ''a'', LF, CHR ''b''], [CHR ''c'', LF, CHR ''d'']]
       = [[CHR ''a'', LF, CHR ''b''], [CHR ''c'', LF, CHR ''d'']]"
    by code_simp
  then show ?thesis by simp
qed

section \<open>Properties of the similarity engine and the grader\<close>

lemma set_dedupe [simp]: "set (dedupe xs) = set xs"
  by (simp add: dedupe_def)

lemma distinct_dedupe [simp]: "distinct (dedupe xs)"
  by (simp add: dedupe_def)

lemma length_dedupe: "length (dedupe xs) = card (set xs)"
  by (metis distinct_card distinct_dedupe set_dedupe)

lemma jaccard_card:
  "jaccard a b = (if set a \<union> set b = {} then 0
                  else real (card (set a \<inter> set b)) / real (card (set a \<union> set b)))"
proof -
  have "length (filter (\<lambda>x. x \<in> set (dedupe b)) (dedupe a)) = card ({x. x \<in> set (dedupe b)} \<inter> set (dedupe a))"
    by (rule distinct_length_filter) simp
  also have "{x. x \<in> set (dedupe b)} \<inter> set (dedupe a) = set a \<inter> set b" by auto
  finally have i: "length (filter (\<lambda>x. x \<in> set (dedupe b)) (dedupe a)) = card (set a \<inter> set b)" .
  have u: "length (dedupe (dedupe a @ dedupe b)) = card (set a \<union> set b)"
    by (simp add: length_dedupe)
  have z: "card (set a \<union> set b) = 0 \<longleftrightarrow> set a \<union> set b = {}" by simp
  show ?thesis unfolding jaccard_def Let_def i u z ..
qed


lemma bigramJaccard_jaccard: "bigramJaccard a b = jaccard a b"
  by (simp add: bigramJaccard_def jaccard_def)

lemma tokens_words: "tokens s = filter (\<lambda>t. t \<notin> set stop) (normalized_words s)"
  by (simp add: tokens_def normalized_words_def)

lemma map_index: "map (\<lambda>i. f (xs ! i)) [0 ..< length xs] = map f xs"
  by (rule nth_equalityI) simp_all

lemma adjacent_pairs:
  "map (\<lambda>i. f (ws ! i) (ws ! (i + 1))) [0 ..< length ws - 1] = map (\<lambda>(a, b). f a b) (zip ws (tl ws))"
  by (rule nth_equalityI) (simp_all add: nth_tl)

lemma bigrams_words:
  "bigrams s = map (\<lambda>(a, b). a @ '' '' @ b) (zip (normalized_words s) (tl (normalized_words s)))"
  unfolding bigrams_def Let_def normalized_words_def by (rule adjacent_pairs)

lemma token_bigrams_tokens:
  "token_bigrams s = map (\<lambda>(a, b). a @ '' '' @ b) (zip (tokens s) (tl (tokens s)))"
  unfolding token_bigrams_def Let_def by (rule adjacent_pairs)
























text \<open>
  Claim C6, amended. The bigrams of the grader are the adjacent pairs of the normalized
  words of the text, stop words included, while the tokens of the Jaccard and cosine
  signals are those words with the stop words removed. The Bigram-Jaccard signal of two
  texts is the size of the intersection of their sets of bigrams over the size of the
  union (0 when both are empty). It equals the signal computed from the adjacent pairs
  of tokens when no word of either text is a stop word.
\<close>

theorem bigrams_over_words:
  "bigrams a = map (\<lambda>(x, y). x @ '' '' @ y) (zip (normalized_words a) (tl (normalized_words a)))
   \<and> tokens a = filter (\<lambda>t. t \<notin> set stop) (normalized_words a)
   \<and> bigramJaccard (bigrams a) (bigrams b)
       = (if set (bigrams a) \<union> set (bigrams b) = {} then 0
          else real (card (set (bigrams a) \<inter> set (bigrams b)))
               / real (card (set (bigrams a) \<union> set (bigrams b))))
   \<and> ((\<forall>w\<in>set (normalized_words a) \<union> set (normalized_words b). w \<notin> set stop) \<longrightarrow>
        bigramJaccard (bigrams a) (bigrams b)
        = bigramJaccard (token_bigrams a) (token_bigrams b))"
proof -
  have same: "bigrams s = token_bigrams s" if "\<forall>w\<in>set (normalized_words s). w \<notin> set stop" for s
  proof -
    from that have "tokens s = normalized_words s" by (simp add: tokens_words)
    then show ?thesis by (simp add: bigrams_words token_bigrams_tokens)
  qed
  have "bigramJaccard (bigrams a) (bigrams b) = bigramJaccard (token_bigrams a) (token_bigrams b)"
    if "\<forall>w\<in>set (normalized_words a) \<union> set (normalized_words b). w \<notin> set stop"
    using that same[of a] same[of b] by simp
  moreover have "bigramJaccard (bigrams a) (bigrams b)
       = (if set (bigrams a) \<union> set (bigrams b) = {} then 0
          else real (card (set (bigrams a) \<inter> set (bigrams b)))
               / real (card (set (bigrams a) \<union> set (bigrams b))))"
    by (simp only: bigramJaccard_jaccard jaccard_card)
  ultimately show ?thesis using bigrams_words tokens_words by blast
qed

theorem bigrams_over_words_witness:
  "normalized_words ''Red cat sat'' = [''red'', ''cat'', ''sat'']
   \<and> normalized_words ''red cat ran.'' = [''red'', ''cat'', ''ran'']
   \<and> tokens ''Red cat sat'' = [''red'', ''cat'', ''sat'']
   \<and> bigrams ''Red cat sat'' = [''red cat'', ''cat sat'']
   \<and> bigramJaccard (bigrams ''Red cat sat'') (bigrams ''red cat ran.'')
       = bigramJaccard (token_bigrams ''Red cat sat'') (token_bigrams ''red cat ran.'')"
proof -
  have w: "normalized_words ''Red cat sat'' = [''red'', ''cat'', ''sat'']"
    "normalized_words ''red cat ran.'' = [''red'', ''cat'', ''ran'']" by code_simp+
  have t: "tokens ''Red cat sat'' = [''red'', ''cat'', ''sat'']" by code_simp
  have b: "bigrams ''Red cat sat'' = [''red cat'', ''cat sat'']" by code_simp
  have "\<forall>w\<in>set (normalized_words ''Red cat sat'') \<union> set (normalized_words ''red cat ran.''). w \<notin> set stop"
    by (simp add: w stop_def)
  with bigrams_over_words[of "''Red cat sat''" "''red cat ran.''"] w t b show ?thesis by simp
qed

text \<open>For \<^verbatim>\<open>the cat\<close> the grader has the bigram \<^verbatim>\<open>the cat\<close> and a Bigram-Jaccard signal
  of 1 against itself; the pairs of tokens are none, with a signal of 0.\<close>

theorem bigrams_keep_stopwords_counterexample:
  "bigrams ''the cat'' = [''the cat''] \<and> token_bigrams ''the cat'' = []
   \<and> bigramJaccard (bigrams ''the cat'') (bigrams ''the cat'') = 1
   \<and> bigramJaccard (token_bigrams ''the cat'') (token_bigrams ''the cat'') = 0"
proof -
  have b: "bigrams ''the cat'' = [''the cat'']" by code_simp
  have t: "token_bigrams ''the cat'' = []" by code_simp
  show ?thesis by (simp add: b t bigramJaccard_def dedupe_def)
qed

section \<open>The distractor selector on two inputs\<close>

lemma example_tokens:
  "tokens ''red cat big hat'' = [''red'', ''cat'', ''big'', ''hat'']"
  "tokens ''red cat old dog'' = [''red'', ''cat'', ''old'', ''dog'']"
  "tokens ''red cat new toy'' = [''red'', ''cat'', ''new'', ''toy'']"
  "tokens ''big hat one two'' = [''big'', ''hat'', ''one'', ''two'']"
  "tokens ''big hat six ten'' = [''big'', ''hat'', ''six'', ''ten'']"
  "tokens ''big hat web dev'' = [''big'', ''hat'', ''web'', ''dev'']"
  by code_simp+

lemma sqrt4: "sqrt 4 = 2"
  using real_sqrt_abs[of 2] by simp


lemma example_scores:
  "semanticSimilarity ''red cat big hat'' ''red cat old dog'' = Num (1 / 2)"
  "semanticSimilarity ''red cat big hat'' ''red cat new toy'' = Num (1 / 2)"
  "semanticSimilarity ''red cat big hat'' ''big hat one two'' = Num (1 / 2)"
  "semanticSimilarity ''red cat big hat'' ''big hat six ten'' = Num (1 / 2)"
  "semanticSimilarity ''red cat big hat'' ''big hat web dev'' = Num (1 / 2)"
  by (simp_all add: semanticSimilarity_def example_tokens Let_def jaccard_def cosineSim_def dedupe_def
        prototype_functions_def sqrt4)

lemma example_lower:
  "toLowerCase ''red cat big hat'' = ''red cat big hat''"
  "toLowerCase ''red cat old dog'' = ''red cat old dog''"
  "toLowerCase ''red cat new toy'' = ''red cat new toy''"
  "toLowerCase ''big hat one two'' = ''big hat one two''"
  "toLowerCase ''big hat six ten'' = ''big hat six ten''"
  "toLowerCase ''big hat web dev'' = ''big hat web dev''"
  "toLowerCase ''An unrelated statement'' = ''an unrelated statement''"
  by code_simp+

lemma example_embedding:
  "embeddingDistractors ''red cat big hat'' (3 / 25) (3 / 4) (\<lambda>k. 0)
     (ServicePhrases [''red cat old dog'', ''red cat new toy''])
   = ([''red cat new toy'', ''red cat old dog''], 1)"
  by (simp add: embeddingDistractors_def Let_def example_lower dedupe_def shuffle_def
        pickFiltered_def example_scores sort_by_score_desc_def)

lemma example_fallback_shuffle:
  "shuffle (\<lambda>k. 0) (Suc 0) [''big hat one two'', ''big hat six ten'', ''big hat web dev'']
   = ([''big hat six ten'', ''big hat web dev'', ''big hat one two''], 3)"
  by (simp add: shuffle_def numeral_2_eq_2)

text \<open>
  Claim C9. Two runs of the selector, with the default band 0.12 to 0.75 (written
  \<open>3 / 25\<close> and \<open>3 / 4\<close>) and a random source that always returns 0. In the first the
  embedding service yields two phrases inside the band and the document pool three more:
  the two lists are concatenated without a cap and the question gets five distractors.
  In the second the answer phrase is the filler text itself and no candidate qualifies:
  all three distractors are the answer phrase.
\<close>

theorem distractor_selection_defects:
  "selectDistractors ''red cat big hat'' (3 / 25) (3 / 4) (\<lambda>k. 0)
     (ServicePhrases [''red cat old dog'', ''red cat new toy''])
     [''big hat one two'', ''big hat six ten'', ''big hat web dev'']
   = [''red cat new toy'', ''red cat old dog'',
      ''big hat six ten'', ''big hat web dev'', ''big hat one two'']
   \<and> selectDistractors ''An unrelated statement'' (3 / 25) (3 / 4) (\<lambda>k. 0)
       NoService [''An unrelated statement'']
     = [''An unrelated statement'', ''An unrelated statement'', ''An unrelated statement'']"
proof -
  have f5: "fill_distractors [''red cat new toy'', ''red cat old dog'',
      ''big hat six ten'', ''big hat web dev'', ''big hat one two'']
     = [''red cat new toy'', ''red cat old dog'',
      ''big hat six ten'', ''big hat web dev'', ''big hat one two'']"
    by (simp add: fill_distractors.simps)
  have f0: "fill_distractors []
     = [''An unrelated statement'', ''An unrelated statement'', ''An unrelated statement'']"
    by code_simp
  have a: "selectDistractors ''red cat big hat'' (3 / 25) (3 / 4) (\<lambda>k. 0)
     (ServicePhrases [''red cat old dog'', ''red cat new toy''])
     [''big hat one two'', ''big hat six ten'', ''big hat web dev'']
   = [''red cat new toy'', ''red cat old dog'',
      ''big hat six ten'', ''big hat web dev'', ''big hat one two'']"
    by (simp add: selectDistractors_def example_embedding Let_def example_lower
          example_fallback_shuffle pickFiltered_def example_scores sort_by_score_desc_def f5)
  have b: "selectDistractors ''An unrelated statement'' (3 / 25) (3 / 4) (\<lambda>k. 0)
       NoService [''An unrelated statement'']
     = [''An unrelated statement'', ''An unrelated statement'', ''An unrelated statement'']"
    by (simp add: selectDistractors_def embeddingDistractors_def Let_def shuffle_def
          pickFiltered_def sort_by_score_desc_def dedupe_def f0)
  from a b show ?thesis by (rule conjI)
qed

end
